theory Spec2Isabelle
  imports Main
begin

section \<open>Data model: objects, links and the document store\<close>

text \<open>
  Every object of a document (a property or a link) is identified by its identity, a
  natural number handed out by one allocation counter. A property class is a
  \<open>propertyType\<close>; the four link classes of \<open>property-links\<close> are a \<open>linkClass\<close>.
\<close>

type_synonym ref = nat

type_synonym extensionConstructor = string

datatype propertyType =
    ROOT | SCENE | NODE | CAMERA | SKIN | MESH | PRIMITIVE | PRIMITIVE_TARGET
  | MATERIAL | TEXTURE | TEXTURE_INFO | ANIMATION | ANIMATION_CHANNEL
  | ANIMATION_SAMPLER | ACCESSOR | BUFFER | EXTENSION_PROPERTY string

datatype linkClass = LINK | TEXTURE_LINK | ATTRIBUTE_LINK | INDEX_LINK

text \<open>
  A link object: identity, class, relation name, parent (the owner), child (the
  target) and, for a texture link, the auxiliary link stored by \<open>setTextureInfoLink\<close>.
\<close>

datatype link =
  Link (linkId: nat) (linkClass: linkClass) (getName: string)
       (getParent: ref) (getChild: ref) (textureInfoLink: "link option")

text \<open>
  An extension object (class \<open>Extension\<close>): \<open>extensionName\<close>, the private \<open>_required\<close>
  flag and the private set \<open>_properties\<close>. An extension constructor is identified with
  its static \<open>EXTENSION_NAME\<close>, which is also the \<open>extensionName\<close> of its instances.
\<close>

record extension =
  extensionName :: string
  required :: bool
  properties :: "ref list"

text \<open>
  The store of one document: the allocation counter, the registry of links of its
  graph (a set in insertion order), the class and name of every property object, the
  fields declared \<open>@GraphChild\<close> (one link or null) and \<open>@GraphChildList\<close> (a list of
  links) of every property, keyed by field name, the Root, the extension objects and the
  set of extensions enabled on the Root (in insertion order).
\<close>

record document =
  nextId :: nat
  links :: "link list"
  ptype :: "ref \<Rightarrow> propertyType"
  pname :: "ref \<Rightarrow> string"
  single :: "ref \<Rightarrow> string \<Rightarrow> link option"
  multi :: "ref \<Rightarrow> string \<Rightarrow> link list"
  root :: ref
  extensions :: "nat \<Rightarrow> extension option"
  extensionsUsed :: "nat list"

text \<open>
  Modelled from the spec: the constructors of the property classes are not among the
  source files. \<open>new C(graph, name)\<close> is a fresh object of class \<open>C\<close>, identified by its
  identity, whose link fields hold their initialisers, null and the empty list (as the
  fields of Node and Scene do).
\<close>

definition newProperty :: "document \<Rightarrow> propertyType \<Rightarrow> string \<Rightarrow> ref \<times> document" where
  "newProperty d t nm =
     (nextId d,
      d\<lparr>nextId := Suc (nextId d),
        ptype := (ptype d)(nextId d := t),
        pname := (pname d)(nextId d := nm),
        single := (single d)(nextId d := (\<lambda>f. None)),
        multi := (multi d)(nextId d := (\<lambda>f. []))\<rparr>)"

text \<open>\<open>new Document()\<close>: an empty graph and a Root constructed on it.\<close>

definition newDocument :: document where
  "newDocument =
     \<lparr>nextId = 1, links = [], ptype = (\<lambda>r. ROOT), pname = (\<lambda>r. []),
      single = (\<lambda>r f. None), multi = (\<lambda>r f. []), root = 0,
      extensions = (\<lambda>x. None), extensionsUsed = []\<rparr>"

section \<open>Graph\<close>

text \<open>
  The base class \<open>Graph\<close> is not among the source files; its members are modelled from
  the contract of the spec.
\<close>

text \<open>
  Modelled from the spec: \<open>registerLink\<close> of the missing class \<open>Graph\<close>. Registration
  adds the link to the registry, where it is discoverable from its source and from its
  target.
\<close>

definition registerLink :: "document \<Rightarrow> link \<Rightarrow> document" where
  "registerLink d l = d\<lparr>links := links d @ [l]\<rparr>"

text \<open>
  Modelled from the spec: \<open>link\<close> of the missing class \<open>Graph\<close>. It returns null if the
  target is absent and otherwise creates and registers a Link, as the three link
  operations of \<open>PropertyGraph\<close> do.
\<close>

definition Graph_link :: "document \<Rightarrow> string \<Rightarrow> ref \<Rightarrow> ref option \<Rightarrow> link option \<times> document" where
  "Graph_link d nm a b =
     (case b of
        None \<Rightarrow> (None, d)
      | Some b' \<Rightarrow>
          (let l = Link (nextId d) LINK nm a b' None
           in (Some l, registerLink (d\<lparr>nextId := Suc (nextId d)\<rparr>) l)))"

text \<open>Modelled from the spec: \<open>getLinks\<close> of the missing class \<open>Graph\<close>, all registered links.\<close>

definition getLinks :: "document \<Rightarrow> link list" where
  "getLinks d = links d"

text \<open>
  Modelled from the spec: \<open>listParents\<close> of the missing class \<open>Graph\<close>. It scans all
  registered links for those whose target is the participant and returns the distinct
  sources.
\<close>

definition listParents :: "document \<Rightarrow> ref \<Rightarrow> ref list" where
  "listParents d p = remdups (map getParent (filter (\<lambda>l. getChild l = p) (links d)))"

text \<open>
  Modelled from the spec: \<open>listChildLinks\<close> of the missing class \<open>Graph\<close>, exactly the
  links whose source is the participant.
\<close>

definition listChildLinks :: "document \<Rightarrow> ref \<Rightarrow> link list" where
  "listChildLinks d p = filter (\<lambda>l. getParent l = p) (links d)"

section \<open>PropertyGraph\<close>

text \<open>
  \<open>linkTexture\<close>, \<open>linkAttribute\<close> and \<open>linkIndex\<close> as written in the source. In
  \<open>linkTexture\<close> the objects are allocated in evaluation order: the TextureLink, the
  TextureInfo, the auxiliary link (registered inside \<open>link\<close>); the TextureLink is
  registered last.
\<close>

definition linkTexture :: "document \<Rightarrow> string \<Rightarrow> ref \<Rightarrow> ref option \<Rightarrow> link option \<times> document" where
  "linkTexture d nm a b =
     (case b of
        None \<Rightarrow> (None, d)
      | Some b' \<Rightarrow>
          (let i = nextId d;
               d1 = d\<lparr>nextId := Suc (nextId d)\<rparr>;
               (ti, d2) = newProperty d1 TEXTURE_INFO [];
               (info, d3) = Graph_link d2 (nm @ ''Info'') a (Some ti);
               l = Link i TEXTURE_LINK nm a b' info
           in (Some l, registerLink d3 l)))"

definition linkAttribute :: "document \<Rightarrow> string \<Rightarrow> ref \<Rightarrow> ref option \<Rightarrow> link option \<times> document" where
  "linkAttribute d nm a b =
     (case b of
        None \<Rightarrow> (None, d)
      | Some b' \<Rightarrow>
          (let l = Link (nextId d) ATTRIBUTE_LINK nm a b' None
           in (Some l, registerLink (d\<lparr>nextId := Suc (nextId d)\<rparr>) l)))"

definition linkIndex :: "document \<Rightarrow> string \<Rightarrow> ref \<Rightarrow> ref option \<Rightarrow> link option \<times> document" where
  "linkIndex d nm a b =
     (case b of
        None \<Rightarrow> (None, d)
      | Some b' \<Rightarrow>
          (let l = Link (nextId d) INDEX_LINK nm a b' None
           in (Some l, registerLink (d\<lparr>nextId := Suc (nextId d)\<rparr>) l)))"

section \<open>Node\<close>

text \<open>
  The fields \<open>camera\<close> and \<open>mesh\<close> are declared \<open>@GraphChild\<close>; a setter stores the result
  of \<open>link\<close> in the field, a getter reads the child of the stored link, or null.
\<close>

definition Node_getMesh :: "document \<Rightarrow> ref \<Rightarrow> ref option" where
  "Node_getMesh d n = (case single d n ''mesh'' of Some l \<Rightarrow> Some (getChild l) | None \<Rightarrow> None)"

definition Node_setMesh :: "document \<Rightarrow> ref \<Rightarrow> ref option \<Rightarrow> document" where
  "Node_setMesh d n mesh =
     (let (l, d') = Graph_link d ''mesh'' n mesh
      in d'\<lparr>single := (single d')(n := (single d' n)(''mesh'' := l))\<rparr>)"

definition Node_getCamera :: "document \<Rightarrow> ref \<Rightarrow> ref option" where
  "Node_getCamera d n = (case single d n ''camera'' of Some l \<Rightarrow> Some (getChild l) | None \<Rightarrow> None)"

definition Node_setCamera :: "document \<Rightarrow> ref \<Rightarrow> ref option \<Rightarrow> document" where
  "Node_setCamera d n camera =
     (let (l, d') = Graph_link d ''camera'' n camera
      in d'\<lparr>single := (single d')(n := (single d' n)(''camera'' := l))\<rparr>)"

section \<open>Property base behaviours\<close>

text \<open>
  The base class \<open>Property\<close> and the decorators \<open>@GraphChild\<close> and \<open>@GraphChildList\<close> are
  not among the source files; an assignment to a decorated field is a plain store.
\<close>

text \<open>
  Modelled from the spec: \<open>addGraphChild\<close> of the missing class \<open>Property\<close>.
  \<open>addChild(collection, link)\<close> appends the link to a locally tracked ordered list.
\<close>

definition addGraphChild :: "document \<Rightarrow> ref \<Rightarrow> string \<Rightarrow> link \<Rightarrow> document" where
  "addGraphChild d p f l = d\<lparr>multi := (multi d)(p := (multi d p)(f := multi d p f @ [l]))\<rparr>"


text \<open>The participant is the source or the target of the link.\<close>

definition touches :: "ref \<Rightarrow> link \<Rightarrow> bool" where
  "touches p l = (getParent l = p \<or> getChild l = p)"

text \<open>
  Modelled from the spec: \<open>disposeLinksFor\<close> of the missing class \<open>Graph\<close>. It removes
  every Link where the participant is source or target. A removed Link is invalidated:
  a field that held it reads null and a local list no longer contains it.
\<close>

definition disposeLinksFor :: "document \<Rightarrow> ref \<Rightarrow> document" where
  "disposeLinksFor d p =
     d\<lparr>links := filter (\<lambda>l. \<not> touches p l) (links d),
       single := (\<lambda>r f. case single d r f of
                          None \<Rightarrow> None
                        | Some l \<Rightarrow> if touches p l then None else Some l),
       multi := (\<lambda>r f. filter (\<lambda>l. \<not> touches p l) (multi d r f))\<rparr>"

text \<open>
  Modelled from the spec: the exclusively-owned children of a participant, for
  \<open>dispose\<close> of the missing class \<open>Property\<close>. Which outbound links own their child
  exclusively is a declaration of the participant types that the source files do not
  hold; it is the parameter \<open>owned\<close>.
\<close>

definition ownedChildren :: "(document \<Rightarrow> link \<Rightarrow> bool) \<Rightarrow> document \<Rightarrow> ref \<Rightarrow> ref list" where
  "ownedChildren owned d p = map getChild (filter (owned d) (listChildLinks d p))"

text \<open>
  Modelled from the spec: the last step of \<open>dispose\<close> of the missing class \<open>Property\<close>,
  which removes self from Root's collection if present.
\<close>

definition removeFromRoot :: "document \<Rightarrow> ref \<Rightarrow> document" where
  "removeFromRoot d p =
     d\<lparr>multi := (multi d)(root d := (\<lambda>f. filter (\<lambda>l. getChild l \<noteq> p) (multi d (root d) f)))\<rparr>"

text \<open>
  Modelled from the spec: \<open>dispose\<close> of the missing class \<open>Property\<close>. \<open>dispose()\<close> calls
  \<open>disposeLinksFor(self)\<close>, then recursively disposes any exclusively-owned child
  participants, then removes self from Root's collection if present. The recursion is a
  work list: \<open>Dispose p\<close> starts the disposal of \<open>p\<close>, \<open>Detach p\<close> is its last step.
\<close>

datatype work = Dispose ref | Detach ref

fun weight :: "work list \<Rightarrow> nat" where
  "weight [] = 0"
| "weight (Dispose p # ws) = 2 + weight ws"
| "weight (Detach p # ws) = 1 + weight ws"

lemma weight_append: "weight (xs @ ys) = weight xs + weight ys"
  by (induction xs rule: weight.induct) simp_all

lemma weight_map_Dispose: "weight (map Dispose cs) = 2 * length cs"
  by (induction cs) simp_all

lemma length_filter_mono:
  "(\<And>x. P x \<Longrightarrow> Q x) \<Longrightarrow> length (filter P xs) \<le> length (filter Q xs)"
  by (induction xs) auto

lemma ownedChildren_bound:
  "length (links (disposeLinksFor d p)) + length (ownedChildren owned d p) \<le> length (links d)"
proof -
  have "length (ownedChildren owned d p)
      = length (filter (\<lambda>l. getParent l = p \<and> owned d l) (links d))"
    by (simp add: ownedChildren_def listChildLinks_def)
  also have "\<dots> \<le> length (filter (touches p) (links d))"
    by (rule length_filter_mono) (simp add: touches_def)
  finally have "length (ownedChildren owned d p) \<le> length (filter (touches p) (links d))" .
  moreover have "length (filter (touches p) (links d))
      + length (filter (\<lambda>l. \<not> touches p l) (links d)) = length (links d)"
    by (rule sum_length_filter_compl)
  ultimately show ?thesis by (simp add: disposeLinksFor_def)
qed

function disposeAll :: "(document \<Rightarrow> link \<Rightarrow> bool) \<Rightarrow> document \<Rightarrow> work list \<Rightarrow> document" where
  "disposeAll owned d [] = d"
| "disposeAll owned d (Dispose p # ws) =
     disposeAll owned (disposeLinksFor d p) (map Dispose (ownedChildren owned d p) @ Detach p # ws)"
| "disposeAll owned d (Detach p # ws) = disposeAll owned (removeFromRoot d p) ws"
  by pat_completeness auto
termination
proof (relation "measure (\<lambda>(owned, d, ws). 2 * length (links d) + weight ws)")
  show "wf (measure (\<lambda>(owned, d, ws). 2 * length (links d) + weight ws))" by simp
next
  fix owned :: "document \<Rightarrow> link \<Rightarrow> bool" and d p ws
  show "((owned, disposeLinksFor d p, map Dispose (ownedChildren owned d p) @ Detach p # ws),
         (owned, d, Dispose p # ws))
        \<in> measure (\<lambda>(owned, d, ws). 2 * length (links d) + weight ws)"
    using ownedChildren_bound [of d p owned]
    by (simp add: weight_append weight_map_Dispose)
next
  fix owned :: "document \<Rightarrow> link \<Rightarrow> bool" and d p ws
  show "((owned, removeFromRoot d p, ws), (owned, d, Detach p # ws))
        \<in> measure (\<lambda>(owned, d, ws). 2 * length (links d) + weight ws)"
    by (simp add: removeFromRoot_def)
qed

definition dispose :: "(document \<Rightarrow> link \<Rightarrow> bool) \<Rightarrow> document \<Rightarrow> ref \<Rightarrow> document" where
  "dispose owned d p = disposeAll owned d [Dispose p]"

text \<open>
  Modelled from the spec: one step of \<open>copy\<close> of the missing class \<open>Property\<close>. For an
  outbound Link on \<open>other\<close> the equivalent relation is created on \<open>self\<close>, where the target
  is \<open>resolveFn(otherTarget)\<close>; the new link takes, in the fields of \<open>self\<close>, the place the
  old one has in the fields of \<open>other\<close>.
\<close>

definition copyLink ::
  "document \<Rightarrow> ref \<Rightarrow> ref \<Rightarrow> (ref \<Rightarrow> ref option) \<Rightarrow> link \<Rightarrow> document \<Rightarrow> document" where
  "copyLink other otherProp self resolve l this =
     (let (l', this1) = Graph_link this (getName l) self (resolve (getChild l))
      in this1\<lparr>single := (single this1)(self := (\<lambda>f.
                   if single other otherProp f = Some l then l' else single this1 self f)),
               multi := (multi this1)(self := (\<lambda>f.
                   if l \<in> set (multi other otherProp f)
                   then multi this1 self f @ (case l' of None \<Rightarrow> [] | Some x \<Rightarrow> [x])
                   else multi this1 self f))\<rparr>)"

text \<open>
  Modelled from the spec: \<open>copy(other, resolveFn)\<close> of the missing class \<open>Property\<close>, for
  every outbound Link on \<open>other\<close> in registration order. The name is copied with the
  links.
\<close>

definition Property_copy ::
  "document \<Rightarrow> ref \<Rightarrow> document \<Rightarrow> ref \<Rightarrow> (ref \<Rightarrow> ref option) \<Rightarrow> document" where
  "Property_copy this self other otherProp resolve =
     fold (copyLink other otherProp self resolve) (listChildLinks other otherProp)
       (this\<lparr>pname := (pname this)(self := pname other otherProp)\<rparr>)"

section \<open>Scene\<close>

text \<open>
  The field \<open>nodes\<close> is declared \<open>@GraphChildList\<close>. \<open>addNode\<close> is modelled for a present
  node.
\<close>

definition Scene_addNode :: "document \<Rightarrow> ref \<Rightarrow> ref \<Rightarrow> document" where
  "Scene_addNode d s node =
     (case Graph_link d ''node'' s (Some node) of
        (Some l, d') \<Rightarrow> addGraphChild d' s ''nodes'' l
      | (None, d') \<Rightarrow> d')"



text \<open>The child list of a Node, field \<open>children\<close>.\<close>

definition Node_addChild :: "document \<Rightarrow> ref \<Rightarrow> ref \<Rightarrow> document" where
  "Node_addChild d n c =
     (case Graph_link d ''child'' n (Some c) of
        (Some l, d') \<Rightarrow> addGraphChild d' n ''children'' l
      | (None, d') \<Rightarrow> d')"



section \<open>Root and Accessor\<close>

text \<open>
  The classes \<open>Root\<close> and \<open>Accessor\<close> are not among the source files. Root holds named
  collections, each a list-valued relation like the \<open>nodes\<close> of a Scene, and the set of
  extension registrations; an Accessor refers to its Buffer by a single-valued
  reference like the \<open>mesh\<close> of a Node.
\<close>

text \<open>
  Modelled from the spec: the methods \<open>_addScene\<close>, \<open>_addNode\<close>, \<open>_addBuffer\<close>,
  \<open>_addAccessor\<close> and their like of the missing class \<open>Root\<close>; each attaches a participant
  to the collection \<open>f\<close> of the Root.
\<close>

definition Root_add :: "document \<Rightarrow> string \<Rightarrow> ref \<Rightarrow> document" where
  "Root_add d f p =
     (case Graph_link d f (root d) (Some p) of
        (Some l, d') \<Rightarrow> addGraphChild d' (root d') f l
      | (None, d') \<Rightarrow> d')"

text \<open>Modelled from the spec: \<open>listBuffers\<close> of the missing class \<open>Root\<close>.\<close>

definition listBuffers :: "document \<Rightarrow> ref list" where
  "listBuffers d = map getChild (multi d (root d) ''buffers'')"

text \<open>Modelled from the spec: \<open>listAccessors\<close> of the missing class \<open>Root\<close>.\<close>

definition listAccessors :: "document \<Rightarrow> ref list" where
  "listAccessors d = map getChild (multi d (root d) ''accessors'')"

text \<open>
  Modelled from the spec: \<open>listExtensionsUsed\<close> of the missing class \<open>Root\<close>, the
  extension registrations as an array.
\<close>

definition listExtensionsUsed :: "document \<Rightarrow> nat list" where
  "listExtensionsUsed d = extensionsUsed d"

text \<open>
  Modelled from the spec: \<open>_enableExtension\<close> of the missing class \<open>Root\<close>, which adds the
  extension to the set of registrations.
\<close>

definition enableExtension :: "document \<Rightarrow> nat \<Rightarrow> document" where
  "enableExtension d x =
     d\<lparr>extensionsUsed :=
         (if x \<in> set (extensionsUsed d) then extensionsUsed d else extensionsUsed d @ [x])\<rparr>"

text \<open>
  Modelled from the spec: \<open>_disableExtension\<close> of the missing class \<open>Root\<close>, which removes
  the extension from the set of registrations.
\<close>

definition disableExtension :: "document \<Rightarrow> nat \<Rightarrow> document" where
  "disableExtension d x = d\<lparr>extensionsUsed := filter (\<lambda>y. y \<noteq> x) (extensionsUsed d)\<rparr>"

text \<open>
  Modelled from the spec: \<open>getBuffer\<close> of the missing class \<open>Accessor\<close>, a single-valued
  reference read like \<open>getMesh\<close> of a Node.
\<close>

definition Accessor_getBuffer :: "document \<Rightarrow> ref \<Rightarrow> ref option" where
  "Accessor_getBuffer d a =
     (case single d a ''buffer'' of Some l \<Rightarrow> Some (getChild l) | None \<Rightarrow> None)"

text \<open>
  Modelled from the spec: \<open>setBuffer\<close> of the missing class \<open>Accessor\<close>, a single-valued
  reference set like \<open>setMesh\<close> of a Node.
\<close>

definition Accessor_setBuffer :: "document \<Rightarrow> ref \<Rightarrow> ref option \<Rightarrow> document" where
  "Accessor_setBuffer d a buffer =
     (let (l, d') = Graph_link d ''buffer'' a buffer
      in d'\<lparr>single := (single d')(a := (single d' a)(''buffer'' := l))\<rparr>)"

section \<open>Extension\<close>

text \<open>
  The constructor enables the new extension on the Root of its document. \<open>dispose\<close>
  disables it and disposes each of its properties, by the \<open>dispose\<close> of a participant.
\<close>

definition newExtension :: "document \<Rightarrow> extensionConstructor \<Rightarrow> nat \<times> document" where
  "newExtension d ctor =
     (let x = nextId d;
          d1 = d\<lparr>nextId := Suc (nextId d),
                 extensions := (extensions d)
                   (x \<mapsto> \<lparr>extensionName = ctor, required = False, properties = []\<rparr>)\<rparr>
      in (x, enableExtension d1 x))"

definition isRequired :: "document \<Rightarrow> nat \<Rightarrow> bool" where
  "isRequired d x = (case extensions d x of Some e \<Rightarrow> required e | None \<Rightarrow> False)"

definition setRequired :: "document \<Rightarrow> nat \<Rightarrow> bool \<Rightarrow> document" where
  "setRequired d x b =
     (case extensions d x of
        Some e \<Rightarrow> d\<lparr>extensions := (extensions d)(x \<mapsto> e\<lparr>required := b\<rparr>)\<rparr>
      | None \<Rightarrow> d)"

definition addExtensionProperty :: "document \<Rightarrow> nat \<Rightarrow> ref \<Rightarrow> document" where
  "addExtensionProperty d x p =
     (case extensions d x of
        Some e \<Rightarrow> d\<lparr>extensions := (extensions d)
            (x \<mapsto> e\<lparr>properties :=
               (if p \<in> set (properties e) then properties e else properties e @ [p])\<rparr>)\<rparr>
      | None \<Rightarrow> d)"

definition removeExtensionProperty :: "document \<Rightarrow> nat \<Rightarrow> ref \<Rightarrow> document" where
  "removeExtensionProperty d x p =
     (case extensions d x of
        Some e \<Rightarrow> d\<lparr>extensions := (extensions d)
            (x \<mapsto> e\<lparr>properties := filter (\<lambda>q. q \<noteq> p) (properties e)\<rparr>)\<rparr>
      | None \<Rightarrow> d)"

definition Extension_dispose :: "(document \<Rightarrow> link \<Rightarrow> bool) \<Rightarrow> document \<Rightarrow> nat \<Rightarrow> document" where
  "Extension_dispose owned d x =
     (case extensions d x of
        Some e \<Rightarrow> fold (\<lambda>property d'. dispose owned d' property) (properties e)
                    (disableExtension d x)
      | None \<Rightarrow> d)"

section \<open>Document\<close>

text \<open>
  \<open>createExtension\<close> reuses the extension of the Root whose \<open>extensionName\<close> is the
  constructor's \<open>EXTENSION_NAME\<close>, and constructs one otherwise.
\<close>

definition createExtension :: "document \<Rightarrow> extensionConstructor \<Rightarrow> nat \<times> document" where
  "createExtension d ctor =
     (case find (\<lambda>ext. map_option extensionName (extensions d ext) = Some ctor)
             (listExtensionsUsed d) of
        Some prevExtension \<Rightarrow> (prevExtension, d)
      | None \<Rightarrow> newExtension d ctor)"

text \<open>The factory methods: construct the property, then attach it to the Root.\<close>

definition createScene :: "document \<Rightarrow> string \<Rightarrow> ref \<times> document" where
  "createScene d nm = (let (scene, d1) = newProperty d SCENE nm in (scene, Root_add d1 ''scenes'' scene))"

definition createNode :: "document \<Rightarrow> string \<Rightarrow> ref \<times> document" where
  "createNode d nm = (let (node, d1) = newProperty d NODE nm in (node, Root_add d1 ''nodes'' node))"

definition createCamera :: "document \<Rightarrow> string \<Rightarrow> ref \<times> document" where
  "createCamera d nm = (let (camera, d1) = newProperty d CAMERA nm in (camera, Root_add d1 ''cameras'' camera))"

definition createMesh :: "document \<Rightarrow> string \<Rightarrow> ref \<times> document" where
  "createMesh d nm = (let (mesh, d1) = newProperty d MESH nm in (mesh, Root_add d1 ''meshes'' mesh))"

definition createPrimitive :: "document \<Rightarrow> ref \<times> document" where
  "createPrimitive d = newProperty d PRIMITIVE []"

definition createMaterial :: "document \<Rightarrow> string \<Rightarrow> ref \<times> document" where
  "createMaterial d nm = (let (material, d1) = newProperty d MATERIAL nm in (material, Root_add d1 ''materials'' material))"

definition createTexture :: "document \<Rightarrow> string \<Rightarrow> ref \<times> document" where
  "createTexture d nm = (let (texture, d1) = newProperty d TEXTURE nm in (texture, Root_add d1 ''textures'' texture))"

definition createBuffer :: "document \<Rightarrow> string \<Rightarrow> ref \<times> document" where
  "createBuffer d nm = (let (buffer, d1) = newProperty d BUFFER nm in (buffer, Root_add d1 ''buffers'' buffer))"

text \<open>
  \<open>createAccessor(name, buffer = null)\<close>: an absent buffer is replaced by
  \<open>listBuffers()[0]\<close>, which is undefined (absent) on an empty list.
\<close>

definition createAccessor :: "document \<Rightarrow> string \<Rightarrow> ref option \<Rightarrow> ref \<times> document" where
  "createAccessor d nm buffer =
     (let buffer' = (case buffer of
                       None \<Rightarrow> (case listBuffers d of [] \<Rightarrow> None | b # bs \<Rightarrow> Some b)
                     | Some b \<Rightarrow> Some b);
          (accessor, d1) = newProperty d ACCESSOR nm;
          d2 = Accessor_setBuffer d1 accessor buffer'
      in (accessor, Root_add d2 ''accessors'' accessor))"

subsection \<open>merge and clone\<close>

text \<open>
  Step 1 of \<open>merge\<close>, as written: for each extension used by \<open>other\<close>,
  \<open>other.createExtension(otherExtension.constructor)\<close>, and \<open>setRequired(true)\<close> on the
  result if \<open>otherExtension\<close> is required. The loop runs over the array that
  \<open>listExtensionsUsed()\<close> returned; it touches \<open>other\<close> only.
\<close>

definition constructorOf :: "document \<Rightarrow> nat \<Rightarrow> extensionConstructor" where
  "constructorOf d x = (case extensions d x of Some e \<Rightarrow> extensionName e | None \<Rightarrow> [])"

fun attachExtensions :: "document \<Rightarrow> nat list \<Rightarrow> document" where
  "attachExtensions other [] = other"
| "attachExtensions other (otherExtension # xs) =
     (let (thisExtension, other1) = createExtension other (constructorOf other otherExtension);
          other2 = (if isRequired other1 otherExtension
                    then setRequired other1 thisExtension True else other1)
      in attachExtensions other2 xs)"

text \<open>
  Steps 2 and 3: \<open>visited\<close> (a set in insertion order) and \<open>propertyMap\<close> start with the
  Root of \<open>other\<close>, mapped to the Root of \<open>this\<close>; then every parent and child of every
  link of \<open>other\<close> that is not yet visited gets a stub of its own class on the graph of
  \<open>this\<close>. The stub is constructed from the graph alone; the source notes that an
  extension property needs a second parameter, which the stub goes without.
\<close>

type_synonym mergeState = "document \<times> ref list \<times> (ref \<Rightarrow> ref option)"

definition visit :: "document \<Rightarrow> ref \<Rightarrow> mergeState \<Rightarrow> mergeState" where
  "visit other property st =
     (case st of (this, visited, propertyMap) \<Rightarrow>
        if property \<in> set visited then (this, visited, propertyMap)
        else (let (stub, this1) = newProperty this (ptype other property) []
              in (this1, visited @ [property], propertyMap(property \<mapsto> stub))))"

fun createStubs :: "document \<Rightarrow> link list \<Rightarrow> mergeState \<Rightarrow> mergeState" where
  "createStubs other [] st = st"
| "createStubs other (l # ls) st =
     createStubs other ls (visit other (getChild l) (visit other (getParent l) st))"

text \<open>Step 4: every visited property is copied into its image, resolving through the map.\<close>

definition assemble :: "document \<Rightarrow> (ref \<Rightarrow> ref option) \<Rightarrow> ref \<Rightarrow> document \<Rightarrow> document" where
  "assemble other propertyMap otherProp this =
     (case propertyMap otherProp of
        Some thisProp \<Rightarrow> Property_copy this thisProp other otherProp propertyMap
      | None \<Rightarrow> this)"

text \<open>
  \<open>merge\<close> returns \<open>this\<close>; the model also returns \<open>other\<close> as the call leaves it.
\<close>

definition stubs :: "document \<Rightarrow> document \<Rightarrow> mergeState" where
  "stubs this other =
     createStubs other (getLinks other) (this, [root other], [root other \<mapsto> root this])"

definition merge :: "document \<Rightarrow> document \<Rightarrow> document \<times> document" where
  "merge this other =
     (let other1 = attachExtensions other (listExtensionsUsed other);
          (this1, visited, propertyMap) = stubs this other1
      in (fold (assemble other1 propertyMap) visited this1, other1))"

definition clone :: "document \<Rightarrow> document" where
  "clone d = fst (merge newDocument d)"

section \<open>Structural equality\<close>

text \<open>
  Modelled from the spec: \<open>equals\<close> of the missing class \<open>Property\<close>. Two participants are
  equivalent iff every outbound Link from one has a corresponding Link from the other,
  with the same relation name and an equivalent target; identities are ignored and
  inbound links are not compared. The targets are compared recursively, which on a
  graph with cycles is a relation \<open>R\<close> closed under the comparison; outbound links
  correspond in order.
\<close>

definition equalsVia :: "(ref \<times> ref) set \<Rightarrow> document \<Rightarrow> document \<Rightarrow> bool" where
  "equalsVia R a b \<longleftrightarrow>
     (root a, root b) \<in> R
     \<and> (\<forall>(p, q)\<in>R. list_all2 (\<lambda>l m. getName l = getName m \<and> (getChild l, getChild m) \<in> R)
                       (listChildLinks a p) (listChildLinks b q))"

text \<open>
  Modelled from the spec: \<open>equals\<close> on documents, which the class \<open>Document\<close> does not
  declare: two documents are equal when their Roots are equivalent.
\<close>

definition Document_equals :: "document \<Rightarrow> document \<Rightarrow> bool" where
  "Document_equals a b \<longleftrightarrow> (\<exists>R. equalsVia R a b)"

section \<open>Example documents\<close>

text \<open>A document that uses one extension, created through \<open>createExtension\<close>.\<close>

definition unlitDocument :: document where
  "unlitDocument = snd (createExtension newDocument ''KHR_materials_unlit'')"

text \<open>
  A document on which the constructor of one extension class has run twice; the second
  instance is required, the first is not.
\<close>

definition twiceEnabledDocument :: document where
  "twiceEnabledDocument =
     (let (x1, d1) = newExtension newDocument ''KHR_materials_unlit'';
          (x2, d2) = newExtension d1 ''KHR_materials_unlit''
      in setRequired d2 x2 True)"

text \<open>A scene (1) with one node (3) that instantiates a mesh (6); the Root is 0.\<close>

definition sceneDocument :: document where
  "sceneDocument =
     (let (scene, d1) = createScene newDocument ''Scene'';
          (node, d2) = createNode d1 ''Node'';
          d3 = Scene_addNode d2 scene node;
          (mesh, d4) = createMesh d3 ''Mesh''
      in Node_setMesh d4 node (Some mesh))"

text \<open>
  A material (3) that refers to a property (2) of the extension (1), as in the test of
  \<open>KHR_materials_unlit\<close>.
\<close>

definition unlitMaterialDocument :: document where
  "unlitMaterialDocument =
     (let (unlitExtension, d1) = createExtension newDocument ''KHR_materials_unlit'';
          (unlit, d2) = newProperty d1 (EXTENSION_PROPERTY ''Unlit'') [];
          d3 = addExtensionProperty d2 unlitExtension unlit;
          (mat, d4) = createMaterial d3 ''MyUnlitMaterial''
      in snd (Graph_link d4 ''KHR_materials_unlit'' mat (Some unlit)))"

section \<open>Auxiliary notions of the proofs\<close>

text \<open>The relation name, parent and child of a link, without its identity.\<close>

definition edge :: "link \<Rightarrow> string \<times> ref \<times> ref" where
  "edge l = (getName l, getParent l, getChild l)"

text \<open>No link of the document, registered or held in a field, touches \<open>p\<close>.\<close>

definition detached :: "ref \<Rightarrow> document \<Rightarrow> bool" where
  "detached p d \<longleftrightarrow>
     filter (touches p) (links d) = []
     \<and> (\<forall>r f l. single d r f = Some l \<longrightarrow> \<not> touches p l)
     \<and> (\<forall>r f. filter (touches p) (multi d r f) = [])"

text \<open>
  The invariant of steps 2 and 3 of \<open>merge\<close>: no link is wired, the map is defined
  exactly on the visited properties and is one-to-one there, the Root of \<open>other\<close> is
  mapped to the Root of \<open>this\<close>, and every other visited property is mapped to an object
  allocated since the merge began, of the same class.
\<close>

definition stubInv :: "document \<Rightarrow> document \<Rightarrow> mergeState \<Rightarrow> bool" where
  "stubInv this0 other st \<longleftrightarrow>
     (case st of (this, V, M) \<Rightarrow>
        links this = links this0 \<and> root this = root this0 \<and> nextId this0 \<le> nextId this
      \<and> distinct V \<and> dom M = set V \<and> inj_on M (set V)
      \<and> M (root other) = Some (root this0)
      \<and> (\<forall>p\<in>set V. \<exists>q. M p = Some q \<and> q < nextId this)
      \<and> (\<forall>p\<in>set V. p \<noteq> root other \<longrightarrow>
            (\<exists>q. M p = Some q \<and> nextId this0 \<le> q \<and> ptype this q = ptype other p)))"

text \<open>The links that step 4 creates for one visited property.\<close>

definition copied :: "document \<Rightarrow> (ref \<Rightarrow> ref option) \<Rightarrow> ref \<Rightarrow> (string \<times> ref \<times> ref) list" where
  "copied other M p =
     (case M p of
        None \<Rightarrow> []
      | Some q \<Rightarrow> concat (map (\<lambda>l. case M (getChild l) of
                                      None \<Rightarrow> []
                                    | Some c \<Rightarrow> [(getName l, q, c)])
                          (listChildLinks other p)))"

lemmas build_defs = createScene_def createNode_def createMesh_def createMaterial_def
  Scene_addNode_def Node_setMesh_def Root_add_def newProperty_def Graph_link_def
  registerLink_def addGraphChild_def newDocument_def Let_def createExtension_def
  newExtension_def enableExtension_def addExtensionProperty_def listExtensionsUsed_def

lemma sceneDocument_links:
  "map edge (links sceneDocument)
     = [(''scenes'', 0, 1), (''nodes'', 0, 3), (''node'', 1, 3), (''meshes'', 0, 6), (''mesh'', 3, 6)]"
  by (simp add: sceneDocument_def build_defs edge_def)



lemma unlitMaterialDocument_facts:
  "extensions unlitMaterialDocument 1
     = Some \<lparr>extensionName = ''KHR_materials_unlit'', required = False, properties = [2]\<rparr>"
  "listParents unlitMaterialDocument 2 = [3]"
  by (simp_all add: unlitMaterialDocument_def build_defs listParents_def)

section \<open>Link creation\<close>

text \<open>
  C6. Each of \<open>link\<close>, \<open>linkTexture\<close>, \<open>linkAttribute\<close> and \<open>linkIndex\<close>, for every relation
  name and source: with an absent target it returns null and leaves the graph as it was;
  with a present target it returns a link with that name, source and target, and the
  link is registered in the graph.
\<close>

theorem link_absent_or_registered:
  "Graph_link d nm a None = (None, d)
   \<and> linkTexture d nm a None = (None, d)
   \<and> linkAttribute d nm a None = (None, d)
   \<and> linkIndex d nm a None = (None, d)
   \<and> (\<exists>l. fst (Graph_link d nm a (Some b)) = Some l
          \<and> l \<in> set (links (snd (Graph_link d nm a (Some b))))
          \<and> getName l = nm \<and> getParent l = a \<and> getChild l = b)
   \<and> (\<exists>l. fst (linkTexture d nm a (Some b)) = Some l
          \<and> l \<in> set (links (snd (linkTexture d nm a (Some b))))
          \<and> getName l = nm \<and> getParent l = a \<and> getChild l = b)
   \<and> (\<exists>l. fst (linkAttribute d nm a (Some b)) = Some l
          \<and> l \<in> set (links (snd (linkAttribute d nm a (Some b))))
          \<and> getName l = nm \<and> getParent l = a \<and> getChild l = b)
   \<and> (\<exists>l. fst (linkIndex d nm a (Some b)) = Some l
          \<and> l \<in> set (links (snd (linkIndex d nm a (Some b))))
          \<and> getName l = nm \<and> getParent l = a \<and> getChild l = b)"
  by (simp add: Graph_link_def linkTexture_def linkAttribute_def linkIndex_def
        registerLink_def newProperty_def Let_def)

text \<open>
  C8. \<open>linkTexture(name, owner, texture)\<close> with a present texture returns a TextureLink
  from the owner to the texture that carries an auxiliary link named \<open>name + 'Info'\<close>
  from the owner to a TextureInfo constructed by this call (its identity was not
  allocated before); the call registers exactly these two links, the auxiliary link
  first.
\<close>

theorem linkTexture_attaches_textureInfo:
  "\<exists>l info.
      fst (linkTexture d nm a (Some b)) = Some l
    \<and> linkClass l = TEXTURE_LINK \<and> getName l = nm \<and> getParent l = a \<and> getChild l = b
    \<and> textureInfoLink l = Some info
    \<and> getName info = nm @ ''Info'' \<and> getParent info = a
    \<and> nextId d \<le> getChild info
    \<and> getChild info < nextId (snd (linkTexture d nm a (Some b)))
    \<and> ptype (snd (linkTexture d nm a (Some b))) (getChild info) = TEXTURE_INFO
    \<and> links (snd (linkTexture d nm a (Some b))) = links d @ [info, l]"
  by (simp add: Graph_link_def linkTexture_def registerLink_def newProperty_def Let_def)

section \<open>Single-valued references\<close>

text \<open>
  C10. The mesh and the camera of a Node that was just created are null; after
  \<open>setMesh\<close> or \<open>setCamera\<close> with an absent argument the stored link is null and the
  getter returns null, whatever the field held before.
\<close>

theorem node_reference_null:
  "Node_getMesh (snd (createNode d nm)) (fst (createNode d nm)) = None
   \<and> Node_getCamera (snd (createNode d nm)) (fst (createNode d nm)) = None
   \<and> single (Node_setMesh d n None) n ''mesh'' = None
   \<and> Node_getMesh (Node_setMesh d n None) n = None
   \<and> single (Node_setCamera d n None) n ''camera'' = None
   \<and> Node_getCamera (Node_setCamera d n None) n = None"
  by (simp add: Node_getMesh_def Node_getCamera_def Node_setMesh_def Node_setCamera_def
        createNode_def Root_add_def newProperty_def Graph_link_def registerLink_def
        addGraphChild_def Let_def)

text \<open>
  C9. The buffer of the Accessor that \<open>createAccessor(s)\<close> returns, called without a
  buffer, is the first element of \<open>listBuffers()\<close> of the document it was called on, and
  is absent when that list is empty.
\<close>

theorem createAccessor_default_buffer:
  "Accessor_getBuffer (snd (createAccessor d s None)) (fst (createAccessor d s None))
     = (case listBuffers d of [] \<Rightarrow> None | b # bs \<Rightarrow> Some b)"
  by (simp add: createAccessor_def Accessor_getBuffer_def Accessor_setBuffer_def
        Root_add_def newProperty_def Graph_link_def registerLink_def
        addGraphChild_def Let_def split: list.splits)

section \<open>Disposal\<close>

lemma detached_disposeLinksFor_self: "detached p (disposeLinksFor d p)"
  by (auto simp: detached_def disposeLinksFor_def filter_empty_conv split: option.splits if_splits)

lemma detached_disposeLinksFor: "detached p d \<Longrightarrow> detached p (disposeLinksFor d q)"
  by (auto simp: detached_def disposeLinksFor_def filter_empty_conv split: option.splits if_splits)

lemma detached_removeFromRoot: "detached p d \<Longrightarrow> detached p (removeFromRoot d q)"
  by (auto simp: detached_def removeFromRoot_def filter_empty_conv)

lemma detached_disposeAll: "detached p d \<Longrightarrow> detached p (disposeAll owned d ws)"
  by (induction owned d ws rule: disposeAll.induct)
     (simp_all add: detached_disposeLinksFor detached_removeFromRoot)

lemma detached_dispose_self: "detached p (dispose owned d p)"
proof -
  have "dispose owned d p
      = disposeAll owned (disposeLinksFor d p) (map Dispose (ownedChildren owned d p) @ [Detach p])"
    by (simp add: dispose_def)
  then show ?thesis
    by (simp only: detached_disposeAll detached_disposeLinksFor_self)
qed

lemma detached_dispose: "detached p d \<Longrightarrow> detached p (dispose owned d q)"
  unfolding dispose_def by (rule detached_disposeAll)






lemma listParents_detached: "detached p d \<Longrightarrow> listParents d p = []"
  by (auto simp: detached_def listParents_def filter_empty_conv touches_def)

lemma links_disposeLinksFor: "set (links (disposeLinksFor d p)) \<subseteq> set (links d)"
  by (auto simp: disposeLinksFor_def)

lemma links_disposeAll: "set (links (disposeAll owned d ws)) \<subseteq> set (links d)"
proof (induction owned d ws rule: disposeAll.induct)
  case (1 owned d)
  then show ?case by simp
next
  case (2 owned d p ws)
  then show ?case using links_disposeLinksFor [of d p] by auto
next
  case (3 owned d p ws)
  then show ?case by (simp add: removeFromRoot_def)
qed


lemma fold_dispose_detached:
  "detached p d \<Longrightarrow> detached p (fold (\<lambda>q d'. dispose owned d' q) ps d)"
  by (induction ps arbitrary: d) (simp_all add: detached_dispose)

lemma fold_dispose_all_detached:
  "p \<in> set ps \<Longrightarrow> detached p (fold (\<lambda>q d'. dispose owned d' q) ps d)"
proof (induction ps arbitrary: d)
  case Nil
  then show ?case by simp
next
  case (Cons q ps)
  show ?case
  proof (cases "p = q")
    case True
    then show ?thesis by (simp add: fold_dispose_detached detached_dispose_self)
  next
    case False
    with Cons show ?thesis by simp
  qed
qed




lemma Extension_dispose_detached:
  assumes "extensions d x = Some e" "p \<in> set (properties e)"
  shows "detached p (Extension_dispose owned d x)"
  using assms by (simp add: Extension_dispose_def fold_dispose_all_detached)

lemma disableExtension_twice: "disableExtension (disableExtension d x) x = disableExtension d x"
  by (simp add: disableExtension_def)



text \<open>
  C1. After \<open>dispose\<close> of a participant \<open>p\<close>, whatever the declaration of owned children,
  \<open>listParents(p)\<close> is empty, no registered link has \<open>p\<close> as its target (nor as its
  source), and the registry holds only links it held before. The same holds for every
  property of an extension after \<open>Extension.dispose\<close>.
\<close>

theorem dispose_removes_links:
  "listParents (dispose owned d p) p = []
   \<and> filter (\<lambda>l. getChild l = p) (links (dispose owned d p)) = []
   \<and> filter (touches p) (links (dispose owned d p)) = []
   \<and> set (links (dispose owned d p)) \<subseteq> set (links d)
   \<and> (extensions d x = Some e \<and> q \<in> set (properties e) \<longrightarrow>
        listParents (Extension_dispose owned d x) q = []
        \<and> filter (touches q) (links (Extension_dispose owned d x)) = [])"
proof -
  have t: "detached p (dispose owned d p)" by (rule detached_dispose_self)
  then have a: "filter (touches p) (links (dispose owned d p)) = []"
    by (simp add: detached_def)
  then have b: "filter (\<lambda>l. getChild l = p) (links (dispose owned d p)) = []"
    by (auto simp: filter_empty_conv touches_def)
  have c: "set (links (dispose owned d p)) \<subseteq> set (links d)"
    unfolding dispose_def by (rule links_disposeAll)
  have e: "listParents (Extension_dispose owned d x) q = []
        \<and> filter (touches q) (links (Extension_dispose owned d x)) = []"
    if "extensions d x = Some e" "q \<in> set (properties e)"
  proof -
    have "detached q (Extension_dispose owned d x)"
      using that by (rule Extension_dispose_detached)
    then show ?thesis by (simp add: listParents_detached detached_def)
  qed
  from a b c e t show ?thesis by (simp add: listParents_detached)
qed

theorem dispose_removes_links_witness:
  "listParents unlitMaterialDocument 2 = [3]
   \<and> listParents (dispose (\<lambda>d l. False) unlitMaterialDocument 2) 2 = []
   \<and> listParents (Extension_dispose (\<lambda>d l. False) unlitMaterialDocument 1) 2 = []"
  using dispose_removes_links [where owned = "\<lambda>d l. False" and d = unlitMaterialDocument
      and p = 2 and x = 1 and q = 2
      and e = "\<lparr>extensionName = ''KHR_materials_unlit'', required = False, properties = [2]\<rparr>"]
    unlitMaterialDocument_facts
  by simp



section \<open>merge\<close>

subsection \<open>What the steps of merge leave alone\<close>

lemma createExtension_frame:
  "links (snd (createExtension d c)) = links d"
  "root (snd (createExtension d c)) = root d"
  "ptype (snd (createExtension d c)) = ptype d"
  by (simp_all add: createExtension_def newExtension_def enableExtension_def Let_def
        split: option.splits)

lemma setRequired_frame:
  "links (setRequired d x b) = links d"
  "root (setRequired d x b) = root d"
  "ptype (setRequired d x b) = ptype d"
  by (simp_all add: setRequired_def split: option.splits)

lemma attachExtensions_frame:
  "links (attachExtensions d xs) = links d
   \<and> root (attachExtensions d xs) = root d
   \<and> ptype (attachExtensions d xs) = ptype d"
proof (induction xs arbitrary: d)
  case Nil
  show ?case by simp
next
  case (Cons x xs)
  obtain y d1 where c: "createExtension d (constructorOf d x) = (y, d1)"
    by (cases "createExtension d (constructorOf d x)")
  have d1: "links d1 = links d" "root d1 = root d" "ptype d1 = ptype d"
    using createExtension_frame [of d "constructorOf d x"] c by simp_all
  show ?case
    using Cons.IH [of "setRequired d1 y True"] Cons.IH [of d1] c d1
    by (simp add: setRequired_frame)
qed

lemma visit_extensionsUsed:
  "extensionsUsed (fst (visit other p st)) = extensionsUsed (fst st)"
  by (cases st) (simp add: visit_def newProperty_def)

lemma createStubs_extensionsUsed:
  "extensionsUsed (fst (createStubs other ls st)) = extensionsUsed (fst st)"
  by (induction ls arbitrary: st) (simp_all add: visit_extensionsUsed)

lemma copyLink_extensionsUsed:
  "extensionsUsed (copyLink other op self r l this) = extensionsUsed this"
  by (simp add: copyLink_def Graph_link_def registerLink_def Let_def split: option.splits)

lemma fold_copyLink_extensionsUsed:
  "extensionsUsed (fold (copyLink other op self r) ls this) = extensionsUsed this"
  by (induction ls arbitrary: this) (simp_all add: copyLink_extensionsUsed)

lemma assemble_extensionsUsed:
  "extensionsUsed (assemble other m p this) = extensionsUsed this"
  by (simp add: assemble_def Property_copy_def fold_copyLink_extensionsUsed split: option.splits)

lemma fold_assemble_extensionsUsed:
  "extensionsUsed (fold (assemble other m) ps this) = extensionsUsed this"
  by (induction ps arbitrary: this) (simp_all add: assemble_extensionsUsed)

lemma merge_extensionsUsed:
  "extensionsUsed (fst (merge this other)) = extensionsUsed this"
proof -
  let ?o = "attachExtensions other (listExtensionsUsed other)"
  obtain t v m where s: "stubs this ?o = (t, v, m)" by (cases "stubs this ?o")
  have "extensionsUsed t = extensionsUsed this"
    using createStubs_extensionsUsed [of ?o "getLinks ?o" "(this, [root ?o], [root ?o \<mapsto> root this])"] s
    by (simp add: stubs_def)
  then show ?thesis
    by (simp add: merge_def Let_def s fold_assemble_extensionsUsed)
qed

lemma snd_merge: "snd (merge this other) = attachExtensions other (listExtensionsUsed other)"
  by (simp add: merge_def Let_def split_beta)

subsection \<open>Extensions\<close>

text \<open>
  C2. Step 1 of \<open>merge\<close> calls \<open>createExtension\<close> on \<open>other\<close>, so the extensions of the
  destination stay as they were: merging the document that uses
  \<open>KHR_materials_unlit\<close> into a new document, or cloning it, yields a document that
  uses no extension.
\<close>

theorem merge_drops_extension:
  "listExtensionsUsed unlitDocument = [1]
   \<and> listExtensionsUsed (fst (merge newDocument unlitDocument)) = []
   \<and> listExtensionsUsed (clone unlitDocument) = []"
  by (simp add: listExtensionsUsed_def merge_extensionsUsed clone_def unlitDocument_def
        createExtension_def newExtension_def enableExtension_def newDocument_def)

text \<open>
  C3. On the document whose Root lists two instances of one extension class, the second
  required and the first not, \<open>merge\<close> sets the required flag of the first instance of
  the source: the source after the call differs from the source before it.
\<close>

theorem merge_changes_source:
  "isRequired twiceEnabledDocument 1 = False
   \<and> isRequired (snd (merge newDocument twiceEnabledDocument)) 1 = True
   \<and> snd (merge newDocument twiceEnabledDocument) \<noteq> twiceEnabledDocument"
proof -
  have a: "isRequired twiceEnabledDocument 1 = False"
    by (simp add: twiceEnabledDocument_def newExtension_def newDocument_def
        enableExtension_def setRequired_def isRequired_def Let_def)
  have b: "isRequired (snd (merge newDocument twiceEnabledDocument)) 1 = True"
    by (simp add: snd_merge twiceEnabledDocument_def newExtension_def newDocument_def
        listExtensionsUsed_def enableExtension_def setRequired_def isRequired_def Let_def
        createExtension_def constructorOf_def)
  from a b have "snd (merge newDocument twiceEnabledDocument) \<noteq> twiceEnabledDocument"
    by auto
  with a b show ?thesis by simp
qed

text \<open>
  Step 1 writes to the source in no other case: when the extensions listed by the Root
  of \<open>other\<close> are objects with pairwise different names, which \<open>createExtension\<close>
  maintains, \<open>merge\<close> leaves \<open>other\<close> as it was.
\<close>

lemma find_SomeD: "find P xs = Some y \<Longrightarrow> y \<in> set xs \<and> P y"
  by (induction xs) (auto split: if_splits)

lemma find_the_only:
  assumes "x \<in> set xs" and "P x" and "\<And>y. y \<in> set xs \<Longrightarrow> P y \<Longrightarrow> y = x"
  shows "find P xs = Some x"
proof (cases "find P xs")
  case None
  then show ?thesis using assms(1,2) by (simp add: find_None_iff)
next
  case (Some y)
  then have "y \<in> set xs \<and> P y" by (rule find_SomeD)
  then have "y = x" using assms(3) by blast
  then show ?thesis using Some by simp
qed

lemma attachExtensions_distinct_names:
  assumes "\<forall>x\<in>set (extensionsUsed d). extensions d x \<noteq> None"
    and "inj_on (\<lambda>x. map_option extensionName (extensions d x)) (set (extensionsUsed d))"
    and "set xs \<subseteq> set (extensionsUsed d)"
  shows "attachExtensions d xs = d"
  using assms(3)
proof (induction xs)
  case Nil
  show ?case by simp
next
  case (Cons x xs)
  then have x: "x \<in> set (extensionsUsed d)" by simp
  then obtain e where e: "extensions d x = Some e" using assms(1) by auto
  have f: "find (\<lambda>ext. map_option extensionName (extensions d ext) = Some (extensionName e))
          (extensionsUsed d) = Some x"
  proof (rule find_the_only [OF x])
    show "map_option extensionName (extensions d x) = Some (extensionName e)"
      using e by simp
    fix y assume y: "y \<in> set (extensionsUsed d)"
      and "map_option extensionName (extensions d y) = Some (extensionName e)"
    then have "map_option extensionName (extensions d y)
        = map_option extensionName (extensions d x)"
      using e by simp
    with assms(2) y x show "y = x" by (meson inj_onD)
  qed
  have cn: "constructorOf d x = extensionName e"
    using e by (simp add: constructorOf_def)
  have c: "createExtension d (constructorOf d x) = (x, d)"
    by (simp only: createExtension_def cn listExtensionsUsed_def f option.case)
  have r: "setRequired d x True = d" if "isRequired d x"
  proof -
    from that e have "required e" by (simp add: isRequired_def)
    then have "e\<lparr>required := True\<rparr> = e" by simp
    then have "(extensions d)(x \<mapsto> e\<lparr>required := True\<rparr>) = (extensions d)(x \<mapsto> e)"
      by (simp only:)
    also have "\<dots> = extensions d" using e by (rule fun_upd_idem)
    finally have "d\<lparr>extensions := (extensions d)(x \<mapsto> e\<lparr>required := True\<rparr>)\<rparr> = d"
      by simp
    then show ?thesis by (simp only: setRequired_def e option.case)
  qed
  have "attachExtensions d (x # xs)
      = attachExtensions (if isRequired d x then setRequired d x True else d) xs"
    by (simp only: attachExtensions.simps c Let_def prod.case)
  also have "(if isRequired d x then setRequired d x True else d) = d"
    using r by simp
  also have "attachExtensions d xs = d" using Cons by simp
  finally show ?case .
qed

lemma merge_keeps_source_distinct_names:
  assumes "\<forall>x\<in>set (extensionsUsed other). extensions other x \<noteq> None"
    and "inj_on (\<lambda>x. map_option extensionName (extensions other x)) (set (extensionsUsed other))"
  shows "snd (merge this other) = other"
proof -
  have "attachExtensions other (extensionsUsed other) = other"
    by (rule attachExtensions_distinct_names [OF assms]) simp
  then show ?thesis by (simp only: snd_merge listExtensionsUsed_def)
qed

subsection \<open>Stubs\<close>

lemma stubInvI:
  "links this = links this0 \<Longrightarrow> root this = root this0 \<Longrightarrow> nextId this0 \<le> nextId this
   \<Longrightarrow> distinct V \<Longrightarrow> dom M = set V \<Longrightarrow> inj_on M (set V)
   \<Longrightarrow> M (root other) = Some (root this0)
   \<Longrightarrow> \<forall>p\<in>set V. \<exists>q. M p = Some q \<and> q < nextId this
   \<Longrightarrow> \<forall>p\<in>set V. p \<noteq> root other \<longrightarrow>
            (\<exists>q. M p = Some q \<and> nextId this0 \<le> q \<and> ptype this q = ptype other p)
   \<Longrightarrow> stubInv this0 other (this, V, M)"
  by (simp add: stubInv_def)

lemma stubInv_initial:
  "root this < nextId this \<Longrightarrow> stubInv this other (this, [root other], [root other \<mapsto> root this])"
  by (simp add: stubInv_def)

lemma stubInv_visit:
  assumes "stubInv this0 other st"
  shows "stubInv this0 other (visit other p st)"
proof -
  obtain this V M where st: "st = (this, V, M)" by (cases st)
  show ?thesis
  proof (cases "p \<in> set V")
    case True
    with assms st show ?thesis by (simp add: visit_def)
  next
    case False
    have inv: "links this = links this0" "root this = root this0" "nextId this0 \<le> nextId this"
      "distinct V" "dom M = set V" "inj_on M (set V)" "M (root other) = Some (root this0)"
      "\<forall>p\<in>set V. \<exists>q. M p = Some q \<and> q < nextId this"
      "\<forall>p\<in>set V. p \<noteq> root other \<longrightarrow>
            (\<exists>q. M p = Some q \<and> nextId this0 \<le> q \<and> ptype this q = ptype other p)"
      using assms st by (simp_all add: stubInv_def)
    have rootV: "root other \<in> set V" using inv(5,7) by auto
    then have pr: "p \<noteq> root other" using False by auto
    let ?t = "snd (newProperty this (ptype other p) [])"
    let ?M = "M(p \<mapsto> nextId this)"
    have v: "visit other p st = (?t, V @ [p], ?M)"
      using False st by (simp add: visit_def newProperty_def)
    have i1: "inj_on ?M (set (V @ [p]))"
    proof (rule inj_onI)
      fix a b assume a: "a \<in> set (V @ [p])" and b: "b \<in> set (V @ [p])" and e: "?M a = ?M b"
      show "a = b"
      proof (cases "a = p")
        case True
        show ?thesis
        proof (rule ccontr)
          assume ne: "a \<noteq> b"
          then have "b \<in> set V" using b True by auto
          then obtain q where "M b = Some q" "q < nextId this" using inv(8) by auto
          then show False using e True ne by auto
        qed
      next
        case an: False
        then have aV: "a \<in> set V" using a by auto
        show ?thesis
        proof (cases "b = p")
          case True
          obtain q where "M a = Some q" "q < nextId this" using inv(8) aV by auto
          then show ?thesis using e True an by auto
        next
          case False
          then have "b \<in> set V" using b by auto
          then show ?thesis using e an False aV inv(6) by (auto dest: inj_onD)
        qed
      qed
    qed
    have i2: "\<forall>x\<in>set (V @ [p]). \<exists>q. ?M x = Some q \<and> q < nextId ?t"
      using inv(8) by (auto simp: newProperty_def intro: less_SucI)
    have i3: "\<forall>x\<in>set (V @ [p]). x \<noteq> root other \<longrightarrow>
            (\<exists>q. ?M x = Some q \<and> nextId this0 \<le> q \<and> ptype ?t q = ptype other x)"
    proof (intro ballI impI)
      fix x assume x: "x \<in> set (V @ [p])" and xr: "x \<noteq> root other"
      show "\<exists>q. ?M x = Some q \<and> nextId this0 \<le> q \<and> ptype ?t q = ptype other x"
      proof (cases "x = p")
        case True
        then show ?thesis using inv(3) by (simp add: newProperty_def)
      next
        case False
        then have xV: "x \<in> set V" using x by auto
        obtain q where q: "M x = Some q" "nextId this0 \<le> q" "ptype this q = ptype other x"
          using inv(9) xV xr by auto
        obtain q' where "M x = Some q'" "q' < nextId this" using inv(8) xV by auto
        then have "q < nextId this" using q by simp
        then show ?thesis using q False by (simp add: newProperty_def)
      qed
    qed
    have i4: "?M (root other) = Some (root this0)" using pr inv(7) by simp
    have i5: "dom ?M = set (V @ [p])" using inv(5) by auto
    have i6: "distinct (V @ [p])" using inv(4) False by simp
    have i7: "links ?t = links this0" "root ?t = root this0" "nextId this0 \<le> nextId ?t"
      using inv(1,2,3) by (simp_all add: newProperty_def)
    show ?thesis
      unfolding v by (rule stubInvI [OF i7(1) i7(2) i7(3) i6 i5 i1 i4 i2 i3])
  qed
qed

lemma stubInv_createStubs:
  "stubInv this0 other st \<Longrightarrow> stubInv this0 other (createStubs other ls st)"
  by (induction ls arbitrary: st) (simp_all add: stubInv_visit)

lemma visited_visit:
  "set (fst (snd (visit other p st))) = insert p (set (fst (snd st)))"
  by (cases st) (auto simp: visit_def newProperty_def)

lemma visited_createStubs:
  "set (fst (snd (createStubs other ls st)))
     = set (fst (snd st)) \<union> getParent ` set ls \<union> getChild ` set ls"
  by (induction ls arbitrary: st) (auto simp: visited_visit)


subsection \<open>The copy phase\<close>

lemma copyLink_frame:
  "root (copyLink other op self M l this) = root this"
  "nextId this \<le> nextId (copyLink other op self M l this)"
  by (simp_all add: copyLink_def Graph_link_def registerLink_def Let_def split: option.splits)

lemma copyLink_edges:
  "map edge (links (copyLink other op self M l this))
     = map edge (links this)
       @ (case M (getChild l) of None \<Rightarrow> [] | Some c \<Rightarrow> [(getName l, self, c)])"
  by (simp add: copyLink_def Graph_link_def registerLink_def edge_def Let_def
        split: option.splits)

lemma fold_copyLink_edges:
  "map edge (links (fold (copyLink other op self M) ls this))
     = map edge (links this)
       @ concat (map (\<lambda>l. case M (getChild l) of None \<Rightarrow> [] | Some c \<Rightarrow> [(getName l, self, c)]) ls)"
  by (induction ls arbitrary: this) (simp_all add: copyLink_edges)

lemma fold_copyLink_root:
  "root (fold (copyLink other op self M) ls this) = root this"
  by (induction ls arbitrary: this) (simp_all add: copyLink_frame)

lemma assemble_edges:
  "map edge (links (assemble other M p this)) = map edge (links this) @ copied other M p"
  by (simp add: assemble_def copied_def Property_copy_def fold_copyLink_edges
        split: option.splits)

lemma assemble_root: "root (assemble other M p this) = root this"
  by (simp add: assemble_def Property_copy_def fold_copyLink_root split: option.splits)

lemma fold_assemble_edges:
  "map edge (links (fold (assemble other M) ps this))
     = map edge (links this) @ concat (map (copied other M) ps)"
  by (induction ps arbitrary: this) (simp_all add: assemble_edges)

lemma fold_assemble_root: "root (fold (assemble other M) ps this) = root this"
  by (induction ps arbitrary: this) (simp_all add: assemble_root)

lemma copied_total:
  assumes "M p = Some q" "\<forall>l\<in>set (listChildLinks other p). \<exists>c. M (getChild l) = Some c"
  shows "copied other M p
     = map (\<lambda>l. (getName l, q, the (M (getChild l)))) (listChildLinks other p)"
proof -
  have "concat (map (\<lambda>l. case M (getChild l) of None \<Rightarrow> [] | Some c \<Rightarrow> [(getName l, q, c)]) ls)
      = map (\<lambda>l. (getName l, q, the (M (getChild l)))) ls"
    if "\<forall>l\<in>set ls. \<exists>c. M (getChild l) = Some c" for ls
    using that by (induction ls) auto
  then show ?thesis using assms by (simp add: copied_def)
qed

lemma concat_single_block:
  "distinct ps \<Longrightarrow> p \<in> set ps \<Longrightarrow> concat (map (\<lambda>x. if x = p then f x else []) ps) = f p"
proof (induction ps)
  case Nil
  then show ?case by simp
next
  case (Cons a ps)
  have z: "concat (map (\<lambda>x. if x = p then f x else []) xs) = []" if "p \<notin> set xs" for xs
    using that by (induction xs) auto
  show ?case
  proof (cases "a = p")
    case True
    then show ?thesis using Cons.prems z [of ps] by simp
  next
    case False
    then show ?thesis using Cons by simp
  qed
qed

text \<open>The stubs of a merge, and what they satisfy.\<close>

lemma stubs_inv:
  assumes "root this < nextId this"
  shows "stubInv this other (stubs this other)"
  unfolding stubs_def by (rule stubInv_createStubs) (rule stubInv_initial [OF assms])

lemma stubs_visited:
  "set (fst (snd (stubs this other)))
     = insert (root other) (getParent ` set (links other) \<union> getChild ` set (links other))"
  by (simp add: stubs_def visited_createStubs getLinks_def)

lemma fst_merge:
  "fst (merge this other)
     = (let other1 = snd (merge this other); s = stubs this other1
        in fold (assemble other1 (snd (snd s))) (fst (snd s)) (fst s))"
  by (simp add: merge_def Let_def split_beta)


lemma stubInvD:
  assumes "stubInv this0 other (this, V, M)"
  shows "links this = links this0" "root this = root this0" "nextId this0 \<le> nextId this"
    "distinct V" "dom M = set V" "inj_on M (set V)" "M (root other) = Some (root this0)"
    "\<forall>p\<in>set V. \<exists>q. M p = Some q \<and> q < nextId this"
    "\<forall>p\<in>set V. p \<noteq> root other \<longrightarrow>
        (\<exists>q. M p = Some q \<and> nextId this0 \<le> q \<and> ptype this q = ptype other p)"
  using assms by (simp_all add: stubInv_def)

lemma merge_other_frame:
  "links (snd (merge this other)) = links other"
  "root (snd (merge this other)) = root other"
  "ptype (snd (merge this other)) = ptype other"
  "listChildLinks (snd (merge this other)) = listChildLinks other"
  using attachExtensions_frame [of other "listExtensionsUsed other"]
  by (simp_all add: snd_merge listChildLinks_def fun_eq_iff)

lemma merge_stub_facts:
  assumes "root this < nextId this"
    and "stubs this (snd (merge this other)) = (this1, visited, propertyMap)"
  shows "set visited = insert (root other)
            (getParent ` set (links other) \<union> getChild ` set (links other))"
    and "distinct visited" and "dom propertyMap = set visited"
    and "inj_on propertyMap (set visited)"
    and "propertyMap (root other) = Some (root this)"
    and "\<forall>p\<in>set visited. p \<noteq> root other \<longrightarrow>
           (\<exists>q. propertyMap p = Some q \<and> nextId this \<le> q \<and> q < nextId this1
                \<and> ptype this1 q = ptype other p)"
    and "links this1 = links this" and "root this1 = root this"
    and "fst (merge this other)
         = fold (assemble (snd (merge this other)) propertyMap) visited this1"
    and "\<forall>l\<in>set (links other). \<exists>q. propertyMap (getChild l) = Some q \<and> q < nextId this1"
    and "map edge (links (fst (merge this other)))
         = map edge (links this)
           @ concat (map (\<lambda>p. map (\<lambda>l. (getName l, the (propertyMap p),
                                         the (propertyMap (getChild l))))
                                (listChildLinks other p)) visited)"
proof -
  let ?o = "snd (merge this other)"
  have inv: "stubInv this ?o (this1, visited, propertyMap)"
    using stubs_inv [OF assms(1), of ?o] assms(2) by simp
  note d = stubInvD [OF inv, unfolded merge_other_frame]
  show vis: "set visited = insert (root other)
            (getParent ` set (links other) \<union> getChild ` set (links other))"
    using stubs_visited [of this ?o] assms(2) by (simp add: merge_other_frame)
  show "distinct visited" by (rule d(4))
  show "dom propertyMap = set visited" by (rule d(5))
  show "inj_on propertyMap (set visited)" by (rule d(6))
  show "propertyMap (root other) = Some (root this)" by (rule d(7))
  show "links this1 = links this" by (rule d(1))
  show "root this1 = root this" by (rule d(2))
  show "\<forall>p\<in>set visited. p \<noteq> root other \<longrightarrow>
           (\<exists>q. propertyMap p = Some q \<and> nextId this \<le> q \<and> q < nextId this1
                \<and> ptype this1 q = ptype other p)"
  proof (intro ballI impI)
    fix p assume p: "p \<in> set visited" "p \<noteq> root other"
    obtain q where q: "propertyMap p = Some q" "nextId this \<le> q" "ptype this1 q = ptype other p"
      using d(9) p by auto
    obtain q' where "propertyMap p = Some q'" "q' < nextId this1" using d(8) p by auto
    with q show "\<exists>q. propertyMap p = Some q \<and> nextId this \<le> q \<and> q < nextId this1
                \<and> ptype this1 q = ptype other p" by auto
  qed
  show targets: "\<forall>l\<in>set (links other). \<exists>q. propertyMap (getChild l) = Some q \<and> q < nextId this1"
    using d(8) vis by auto
  show m: "fst (merge this other) = fold (assemble ?o propertyMap) visited this1"
    using assms(2) by (simp add: fst_merge Let_def)
  have blocks: "map (copied ?o propertyMap) visited
      = map (\<lambda>p. map (\<lambda>l. (getName l, the (propertyMap p), the (propertyMap (getChild l))))
                     (listChildLinks other p)) visited"
  proof (rule map_cong [OF refl])
    fix p assume p: "p \<in> set visited"
    then obtain q where q: "propertyMap p = Some q" using d(8) by auto
    have "\<forall>l\<in>set (listChildLinks ?o p). \<exists>c. propertyMap (getChild l) = Some c"
      using targets by (auto simp: merge_other_frame listChildLinks_def)
    from copied_total [OF q this] q
    show "copied ?o propertyMap p
        = map (\<lambda>l. (getName l, the (propertyMap p), the (propertyMap (getChild l))))
              (listChildLinks other p)"
      by (simp add: merge_other_frame)
  qed
  show "map edge (links (fst (merge this other)))
         = map edge (links this)
           @ concat (map (\<lambda>p. map (\<lambda>l. (getName l, the (propertyMap p),
                                         the (propertyMap (getChild l))))
                                (listChildLinks other p)) visited)"
    by (simp only: m fold_assemble_edges blocks d(1))
qed

text \<open>The stubs and the links of the clone of the example scene.\<close>

lemma sceneDocument_struct:
  "links sceneDocument
     = [Link 2 LINK ''scenes'' 0 1 None, Link 4 LINK ''nodes'' 0 3 None,
        Link 5 LINK ''node'' 1 3 None, Link 7 LINK ''meshes'' 0 6 None,
        Link 8 LINK ''mesh'' 3 6 None]"
  "root sceneDocument = 0"
  by (simp_all add: sceneDocument_def build_defs)

lemma stubs_sceneDocument:
  "fst (snd (stubs newDocument (snd (merge newDocument sceneDocument)))) = [0, 1, 3, 6]"
  "snd (snd (stubs newDocument (snd (merge newDocument sceneDocument))))
     = [0 \<mapsto> 0, 1 \<mapsto> 1, 3 \<mapsto> 2, 6 \<mapsto> 3]"
  by (simp_all add: stubs_def getLinks_def merge_other_frame sceneDocument_struct
      visit_def newProperty_def newDocument_def numeral_2_eq_2 numeral_3_eq_3)

lemma clone_sceneDocument_links:
  "map edge (links (clone sceneDocument))
     = [(''scenes'', 0, 1), (''nodes'', 0, 2), (''meshes'', 0, 3), (''node'', 1, 2), (''mesh'', 2, 3)]"
proof -
  have r: "root newDocument < nextId newDocument" by (simp add: newDocument_def)
  have s: "stubs newDocument (snd (merge newDocument sceneDocument))
      = (fst (stubs newDocument (snd (merge newDocument sceneDocument))),
         [0, 1, 3, 6], [0 \<mapsto> 0, 1 \<mapsto> 1, 3 \<mapsto> 2, 6 \<mapsto> 3])"
    using stubs_sceneDocument
    by (metis prod.collapse)
  have l: "links newDocument = []" by (simp add: newDocument_def)
  show ?thesis
    unfolding clone_def merge_stub_facts(11) [OF r s] l
    by (simp add: listChildLinks_def sceneDocument_struct)
qed

text \<open>
  C5. In \<open>merge(this, other)\<close> on a document whose Root is an allocated object, the
  stub phase ends with a map that is defined exactly on the Root of \<open>other\<close> and the
  endpoints of the links of \<open>other\<close>, is one-to-one there, sends the Root of \<open>other\<close> to
  the Root of \<open>this\<close> and every other property to an object of the same class allocated
  during this phase; no link has been wired by then. The result of \<open>merge\<close> is the copy
  phase run on this state; the target of every link of \<open>other\<close> is mapped to an object
  that exists when the copy phase begins, and the links wired are, for each visited
  property in turn, its outbound links with both ends mapped.
\<close>

theorem merge_stub_map:
  assumes "root this < nextId this"
    and "stubs this (snd (merge this other)) = (this1, visited, propertyMap)"
  shows "set visited = insert (root other)
            (getParent ` set (getLinks other) \<union> getChild ` set (getLinks other))
     \<and> distinct visited \<and> dom propertyMap = set visited
     \<and> inj_on propertyMap (set visited)
     \<and> propertyMap (root other) = Some (root this)
     \<and> (\<forall>p\<in>set visited. p \<noteq> root other \<longrightarrow>
           (\<exists>q. propertyMap p = Some q \<and> nextId this \<le> q \<and> q < nextId this1
                \<and> ptype this1 q = ptype other p))
     \<and> links this1 = links this
     \<and> fst (merge this other)
         = fold (assemble (snd (merge this other)) propertyMap) visited this1
     \<and> (\<forall>l\<in>set (getLinks other). \<exists>q. propertyMap (getChild l) = Some q \<and> q < nextId this1)
     \<and> map edge (links (fst (merge this other)))
         = map edge (links this)
           @ concat (map (\<lambda>p. map (\<lambda>l. (getName l, the (propertyMap p),
                                         the (propertyMap (getChild l))))
                                (listChildLinks other p)) visited)"
  unfolding getLinks_def
  by (intro conjI) (rule merge_stub_facts [OF assms])+

theorem merge_stub_map_witness:
  "root newDocument < nextId newDocument
   \<and> distinct (fst (snd (stubs newDocument (snd (merge newDocument sceneDocument)))))
   \<and> inj_on (snd (snd (stubs newDocument (snd (merge newDocument sceneDocument)))))
        (set (fst (snd (stubs newDocument (snd (merge newDocument sceneDocument))))))
   \<and> snd (snd (stubs newDocument (snd (merge newDocument sceneDocument)))) (root sceneDocument)
       = Some (root newDocument)
   \<and> links (fst (stubs newDocument (snd (merge newDocument sceneDocument)))) = []
   \<and> fst (snd (stubs newDocument (snd (merge newDocument sceneDocument)))) = [0, 1, 3, 6]
   \<and> snd (snd (stubs newDocument (snd (merge newDocument sceneDocument))))
       = [0 \<mapsto> 0, 1 \<mapsto> 1, 3 \<mapsto> 2, 6 \<mapsto> 3]"
proof -
  have r: "root newDocument < nextId newDocument" by (simp add: newDocument_def)
  have s: "stubs newDocument (snd (merge newDocument sceneDocument))
      = (fst (stubs newDocument (snd (merge newDocument sceneDocument))),
         fst (snd (stubs newDocument (snd (merge newDocument sceneDocument)))),
         snd (snd (stubs newDocument (snd (merge newDocument sceneDocument)))))"
    by simp
  have l: "links newDocument = []" by (simp add: newDocument_def)
  note m = merge_stub_map [OF r s]
  from m have a: "distinct (fst (snd (stubs newDocument (snd (merge newDocument sceneDocument)))))"
    by blast
  from m have b: "inj_on (snd (snd (stubs newDocument (snd (merge newDocument sceneDocument)))))
        (set (fst (snd (stubs newDocument (snd (merge newDocument sceneDocument))))))"
    by blast
  from m have c: "snd (snd (stubs newDocument (snd (merge newDocument sceneDocument))))
        (root sceneDocument) = Some (root newDocument)"
    by blast
  from m have d: "links (fst (stubs newDocument (snd (merge newDocument sceneDocument))))
        = links newDocument"
    by blast
  from r a b c d l stubs_sceneDocument show ?thesis by simp
qed

subsection \<open>clone\<close>

lemma filter_block:
  "filter (\<lambda>e. fst (snd e) = q) (map (\<lambda>l. (f l, q', g l)) ls)
     = (if q' = q then map (\<lambda>l. (f l, q', g l)) ls else [])"
  by (induction ls) auto

text \<open>The comparison tells documents apart.\<close>

lemma equals_distinguishes: "\<not> Document_equals sceneDocument newDocument"
proof
  assume "Document_equals sceneDocument newDocument"
  then obtain R where R: "equalsVia R sceneDocument newDocument"
    by (auto simp: Document_equals_def)
  then have "(root sceneDocument, root newDocument) \<in> R" by (simp add: equalsVia_def)
  with R have "list_all2 (\<lambda>l m. getName l = getName m \<and> (getChild l, getChild m) \<in> R)
      (listChildLinks sceneDocument (root sceneDocument))
      (listChildLinks newDocument (root newDocument))"
    by (auto simp: equalsVia_def)
  then have "length (listChildLinks sceneDocument (root sceneDocument))
      = length (listChildLinks newDocument (root newDocument))"
    by (rule list_all2_lengthD)
  then show False
    by (simp add: listChildLinks_def sceneDocument_def build_defs)
qed

text \<open>
  C4. \<open>clone\<close> is \<open>merge\<close> of the document into a new, empty document, and the clone
  equals the document under the structural comparison of outbound links: the Roots are
  related by a relation under which related participants have, in order, outbound
  links of the same names to related targets.
\<close>

theorem clone_equals:
  "Document_equals (clone d) d \<and> clone d = fst (merge newDocument d)"
proof -
  let ?o = "snd (merge newDocument d)"
  obtain t V M where s: "stubs newDocument ?o = (t, V, M)"
    by (cases "stubs newDocument ?o")
  have r: "root newDocument < nextId newDocument" by (simp add: newDocument_def)
  note sm = merge_stub_facts [OF r s]
  have ln: "links newDocument = []" by (simp add: newDocument_def)
  note vis = sm(1) and dist = sm(2) and dom = sm(3) and inj = sm(4) and Mroot = sm(5)
  have e: "map edge (links (clone d))
         = concat (map (\<lambda>p. map (\<lambda>l. (getName l, the (M p), the (M (getChild l))))
                                (listChildLinks d p)) V)"
    using sm(11) by (simp add: clone_def ln)
  have rootc: "root (clone d) = root newDocument"
    using sm(8) by (simp add: clone_def sm(9) fold_assemble_root)
  define R where "R = {(the (M p), p) | p. p \<in> set V}"
  have out: "map edge (listChildLinks (clone d) (the (M p)))
      = map (\<lambda>l. (getName l, the (M p), the (M (getChild l)))) (listChildLinks d p)"
    if p: "p \<in> set V" for p
  proof -
    let ?blk = "\<lambda>x. map (\<lambda>l. (getName l, the (M x), the (M (getChild l)))) (listChildLinks d x)"
    have "map edge (listChildLinks (clone d) (the (M p)))
        = filter (\<lambda>e. fst (snd e) = the (M p)) (map edge (links (clone d)))"
      by (simp add: listChildLinks_def filter_map o_def edge_def)
    also have "\<dots> = concat (map (\<lambda>x. filter (\<lambda>e. fst (snd e) = the (M p)) (?blk x)) V)"
      by (simp add: e filter_concat o_def)
    also have "map (\<lambda>x. filter (\<lambda>e. fst (snd e) = the (M p)) (?blk x)) V
        = map (\<lambda>x. if x = p then ?blk p else []) V"
    proof (rule map_cong [OF refl])
      fix x assume x: "x \<in> set V"
      have "the (M x) = the (M p) \<longleftrightarrow> x = p"
      proof
        assume eq: "the (M x) = the (M p)"
        obtain a b where "M x = Some a" "M p = Some b" using x p dom by (metis domD)
        with eq have "M x = M p" by simp
        then show "x = p" using inj x p by (auto dest: inj_onD)
      qed simp
      then show "filter (\<lambda>e. fst (snd e) = the (M p)) (?blk x) = (if x = p then ?blk p else [])"
        by (simp add: filter_block)
    qed
    also have "concat (map (\<lambda>x. if x = p then ?blk p else []) V) = ?blk p"
      using concat_single_block [OF dist p, of "\<lambda>x. ?blk p"] by simp
    finally show ?thesis .
  qed
  have "equalsVia R (clone d) d"
    unfolding equalsVia_def
  proof (intro conjI ballI)
    have "root d \<in> set V" using vis by simp
    then show "(root (clone d), root d) \<in> R"
      using Mroot rootc by (force simp: R_def)
  next
    fix x assume "x \<in> R"
    then obtain p where x: "x = (the (M p), p)" and p: "p \<in> set V" by (auto simp: R_def)
    have "list_all2 (\<lambda>l m. edge l = (getName m, the (M p), the (M (getChild m))))
            (listChildLinks (clone d) (the (M p))) (listChildLinks d p)"
      using out [OF p] by (simp add: list_all2_conv_all_nth list_eq_iff_nth_eq)
    then have "list_all2 (\<lambda>l m. getName l = getName m \<and> (getChild l, getChild m) \<in> R)
            (listChildLinks (clone d) (the (M p))) (listChildLinks d p)"
    proof (rule list.rel_mono_strong)
      fix l m
      assume "m \<in> set (listChildLinks d p)"
        and lm: "edge l = (getName m, the (M p), the (M (getChild m)))"
      then have "getChild m \<in> set V" using vis by (auto simp: listChildLinks_def)
      then show "getName l = getName m \<and> (getChild l, getChild m) \<in> R"
        using lm by (auto simp: R_def edge_def)
    qed
    then show "case x of (p, q) \<Rightarrow>
        list_all2 (\<lambda>l m. getName l = getName m \<and> (getChild l, getChild m) \<in> R)
          (listChildLinks (clone d) p) (listChildLinks d q)"
      using x by simp
  qed
  then show ?thesis by (auto simp: Document_equals_def clone_def)
qed

theorem clone_equals_witness:
  "Document_equals (clone sceneDocument) sceneDocument
   \<and> clone sceneDocument = fst (merge newDocument sceneDocument)
   \<and> \<not> Document_equals sceneDocument newDocument
   \<and> map edge (links sceneDocument)
       = [(''scenes'', 0, 1), (''nodes'', 0, 3), (''node'', 1, 3), (''meshes'', 0, 6), (''mesh'', 3, 6)]
   \<and> map edge (links (clone sceneDocument))
       = [(''scenes'', 0, 1), (''nodes'', 0, 2), (''meshes'', 0, 3), (''node'', 1, 2), (''mesh'', 2, 3)]"
  using clone_equals [of sceneDocument] equals_distinguishes sceneDocument_links
    clone_sceneDocument_links
  by blast

end
